theory Spec2Isabelle
  imports Complex_Main "HOL-Library.AList" "HOL-Library.Sublist"
begin

section \<open>JavaScript values shared by the three components\<close>

text \<open>JSON data, as carried by request and response bodies.\<close>

datatype json =
    JNull
  | JBool bool
  | JNum int
  | JStr string
  | JArr "json list"
  | JObj "(string \<times> json) list"

text \<open>What a remote service answered: the \<^verbatim>\<open>status\<close> and \<^verbatim>\<open>data\<close> of an axios response.\<close>

record http_response =
  resp_status :: int
  resp_data :: json

text \<open>
  A thrown value. Every error object has a \<^verbatim>\<open>message\<close>; the errors of the HTTP client
  may also carry a \<^verbatim>\<open>code\<close> and the \<^verbatim>\<open>response\<close> of the remote service. A property
  that is absent (\<^verbatim>\<open>undefined\<close>) is \<open>None\<close>.
\<close>

record js_error =
  message :: string
  code :: "string option"
  response :: "http_response option"

text \<open>\<^verbatim>\<open>new Error(message)\<close>: a message and nothing else.\<close>

definition Error :: "string \<Rightarrow> js_error" where
  "Error msg = \<lparr> message = msg, code = None, response = None \<rparr>"

text \<open>
  \<^verbatim>\<open>Date.now()\<close>, \<^verbatim>\<open>new Date()\<close> and the operations a breaker wraps are effects on
  the environment, so the environment is an explicit value: a record with the clock (in
  milliseconds) that a caller may extend with fields of its own, a mock's call counter
  for instance.
\<close>

record env =
  clock :: int

section \<open>Circuit breaker (class CircuitBreaker)\<close>

text \<open>
  An operation takes its arguments and the environment and returns its outcome
  (\<open>Inl\<close> a raised error or rejected promise, \<open>Inr\<close> the resolved value) together with
  the environment it leaves behind.
\<close>

type_synonym ('x, 'w, 'e, 'a) operation =
  "'x \<Rightarrow> 'w env_scheme \<Rightarrow> ('e + 'a) \<times> 'w env_scheme"

datatype cb_state = CLOSED | OPEN | HALF_OPEN

record breaker =
  threshold :: int
  timeout :: int
  resetTimeout :: int
  failures :: int
  nextAttempt :: int
  state :: cb_state

text \<open>What \<^verbatim>\<open>call\<close> can raise: an error the breaker creates itself, or the error of
  the operation, thrown again unchanged.\<close>

datatype 'e raised = Raised js_error | Rethrown 'e

text \<open>\<^verbatim>\<open>constructor(threshold = 5, timeout = 60000, resetTimeout = 30000)\<close>:
  an argument that is left out (\<open>None\<close>) takes its default.\<close>

definition CircuitBreaker ::
  "int option \<Rightarrow> int option \<Rightarrow> int option \<Rightarrow> 'w env_scheme \<Rightarrow> breaker" where
  "CircuitBreaker th tmo rst w =
     \<lparr> threshold = (case th of None \<Rightarrow> 5 | Some t \<Rightarrow> t),
       timeout = (case tmo of None \<Rightarrow> 60000 | Some t \<Rightarrow> t),
       resetTimeout = (case rst of None \<Rightarrow> 30000 | Some t \<Rightarrow> t),
       failures = 0,
       nextAttempt = clock w,
       state = CLOSED \<rparr>"

definition recordFailure :: "'w env_scheme \<Rightarrow> breaker \<Rightarrow> breaker" where
  "recordFailure w b =
     (let b1 = b\<lparr>failures := failures b + 1\<rparr> in
      if failures b1 \<ge> threshold b1
      then b1\<lparr>state := OPEN, nextAttempt := clock w + resetTimeout b1\<rparr>
      else b1)"

definition reset :: "breaker \<Rightarrow> breaker" where
  "reset b = b\<lparr>failures := 0, state := CLOSED\<rparr>"

definition getState :: "breaker \<Rightarrow> cb_state" where
  "getState b = state b"

text \<open>The first statement of \<^verbatim>\<open>call\<close>, the gate on the OPEN state: it raises, or it
  hands the breaker on, moved to HALF_OPEN when the cooldown is over.\<close>

definition call_gate :: "breaker \<Rightarrow> 'w env_scheme \<Rightarrow> 'e raised + breaker" where
  "call_gate b w =
     (if state b = OPEN then
        (if clock w < nextAttempt b then Inl (Raised (Error ''Circuit breaker is OPEN''))
         else Inr (b\<lparr>state := HALF_OPEN\<rparr>))
      else Inr b)"

text \<open>The \<^verbatim>\<open>try\<close>/\<^verbatim>\<open>catch\<close> of \<^verbatim>\<open>call\<close>: the operation is awaited once; its value
  is returned after \<^verbatim>\<open>reset()\<close>, its error is thrown again after
  \<^verbatim>\<open>recordFailure()\<close>, which reads the clock once the operation has finished.\<close>

definition call_attempt ::
  "breaker \<Rightarrow> ('x, 'w, 'e, 'a) operation \<Rightarrow> 'x \<Rightarrow> 'w env_scheme
     \<Rightarrow> ('e raised + 'a) \<times> breaker \<times> 'w env_scheme" where
  "call_attempt b func args w =
     (case func args w of
        (Inr result, w') \<Rightarrow> (Inr result, reset b, w')
      | (Inl error, w') \<Rightarrow> (Inl (Rethrown error), recordFailure w' b, w'))"

definition call ::
  "breaker \<Rightarrow> ('x, 'w, 'e, 'a) operation \<Rightarrow> 'x \<Rightarrow> 'w env_scheme
     \<Rightarrow> ('e raised + 'a) \<times> breaker \<times> 'w env_scheme" where
  "call b func args w =
     (case call_gate b w of
        Inl e \<Rightarrow> (Inl e, b, w)
      | Inr b' \<Rightarrow> call_attempt b' func args w)"

text \<open>
  A sequential use of one breaker: calls that are each awaited before the next step, and
  whatever else happens in between (time passing, other code changing the environment).
  The results of the calls are dropped, as in a test that wraps each call in an empty
  \<^verbatim>\<open>catch\<close>.
\<close>

datatype ('x, 'w, 'e, 'a) step =
    Call "('x, 'w, 'e, 'a) operation" 'x
  | Elapse "'w env_scheme \<Rightarrow> 'w env_scheme"

fun run ::
  "breaker \<Rightarrow> ('x, 'w, 'e, 'a) step list \<Rightarrow> 'w env_scheme \<Rightarrow> breaker \<times> 'w env_scheme" where
  "run b [] w = (b, w)"
| "run b (Call func args # ss) w =
     (case call b func args w of (r, b', w') \<Rightarrow> run b' ss w')"
| "run b (Elapse g # ss) w = run b ss (g w)"

text \<open>An operation that fails whenever it is run.\<close>

definition always_fails :: "('x, 'w, 'e, 'a) operation \<Rightarrow> bool" where
  "always_fails f = (\<forall>args w. isl (fst (f args w)))"

text \<open>
  A mock in the style of \<^verbatim>\<open>jest.fn().mockResolvedValue(v)\<close> (\<open>Inr v\<close>) and
  \<^verbatim>\<open>jest.fn().mockRejectedValue(e)\<close> (\<open>Inl e\<close>): it settles with the given outcome
  and counts how often it has been invoked.
\<close>

record mock_env = env +
  mockCalls :: nat

definition mockFn :: "('e + 'a) \<Rightarrow> ('x, 'z mock_env_ext, 'e, 'a) operation" where
  "mockFn outcome args w = (outcome, w\<lparr>mockCalls := mockCalls w + 1\<rparr>)"

section \<open>Service registry (class ServiceRegistry)\<close>

record service_instance =
  inst_id :: string
  url :: string
  version :: string
  registeredAt :: int
  status :: string

text \<open>
  \<^verbatim>\<open>this.services\<close> is a Map from service name to an array of instances. Every stored
  instance is an object that \<^verbatim>\<open>register\<close> creates afresh, so no object sits in two
  places, and updating the record at one position is what the in-place assignment to one
  object does.
\<close>

record registry =
  services :: "string \<rightharpoonup> service_instance list"

definition ServiceRegistry :: registry where
  "ServiceRegistry = \<lparr> services = Map.empty \<rparr>"

text \<open>\<^verbatim>\<open>this.services.get(serviceName) || []\<close>: the array stored for a name, the
  empty one when the name has none (an array, even an empty one, is truthy).\<close>

definition instances_of :: "registry \<Rightarrow> string \<Rightarrow> service_instance list" where
  "instances_of reg serviceName =
     (case services reg serviceName of None \<Rightarrow> [] | Some instances \<Rightarrow> instances)"

text \<open>\<^verbatim>\<open>register\<close>: a name that has no array yet gets the empty one; then the object
  \<^verbatim>\<open>{...instance, registeredAt: new Date(), status: 'healthy'}\<close> is pushed at the end
  of the array of the name. (The \<^verbatim>\<open>console.log\<close> line changes nothing.)\<close>

definition register ::
  "registry \<Rightarrow> string \<Rightarrow> service_instance \<Rightarrow> 'w env_scheme \<Rightarrow> registry" where
  "register reg serviceName instance w =
     reg\<lparr>services := (services reg)(serviceName \<mapsto>
       instances_of reg serviceName @
         [instance\<lparr>registeredAt := clock w, status := ''healthy''\<rparr>])\<rparr>"

definition discover :: "registry \<Rightarrow> string \<Rightarrow> service_instance list" where
  "discover reg serviceName =
     (let instances = instances_of reg serviceName in
      filter (\<lambda>instance. status instance = ''healthy'') instances)"

text \<open>Reading an array at an index: \<^verbatim>\<open>undefined\<close> (\<open>None\<close>) outside its bounds.\<close>

definition js_index :: "'a list \<Rightarrow> int \<Rightarrow> 'a option" where
  "js_index xs i = (if 0 \<le> i \<and> i < int (length xs) then Some (xs ! nat i) else None)"

text \<open>\<^verbatim>\<open>getHealthyInstance\<close>; \<open>random\<close> is the number that \<^verbatim>\<open>Math.random()\<close> returns,
  which lies in the interval from 0 (included) to 1 (excluded).\<close>

definition getHealthyInstance ::
  "registry \<Rightarrow> string \<Rightarrow> real \<Rightarrow> js_error + service_instance option" where
  "getHealthyInstance reg serviceName random =
     (let instances = discover reg serviceName in
      if length instances = 0
      then Inl (Error (''No healthy instances found for service: '' @ serviceName))
      else Inr (js_index instances \<lfloor>random * real (length instances)\<rfloor>))"

text \<open>\<^verbatim>\<open>Array.prototype.find\<close>, by position: the index of the first element that
  satisfies the predicate.\<close>

fun find_first :: "('a \<Rightarrow> bool) \<Rightarrow> 'a list \<Rightarrow> nat option" where
  "find_first P [] = None"
| "find_first P (x # xs) = (if P x then Some 0 else map_option Suc (find_first P xs))"

definition markUnhealthy :: "registry \<Rightarrow> string \<Rightarrow> string \<Rightarrow> registry" where
  "markUnhealthy reg serviceName instanceId =
     (case services reg serviceName of
        None \<Rightarrow> reg
      | Some instances \<Rightarrow>
          (case find_first (\<lambda>i. inst_id i = instanceId) instances of
             None \<Rightarrow> reg
           | Some k \<Rightarrow>
               reg\<lparr>services := (services reg)(serviceName \<mapsto>
                 instances[k := (instances ! k)\<lparr>status := ''unhealthy''\<rparr>])\<rparr>))"

section \<open>Dispatcher (proxyRequest of the API gateway)\<close>

record request =
  req_method :: string
  req_headers :: "(string \<times> string) list"
  req_body :: "json option"

record axios_config =
  cfg_method :: string
  cfg_url :: string
  cfg_headers :: "(string \<times> string option) list"
  cfg_timeout :: int
  cfg_data :: "json option"

text \<open>The outcome of \<^verbatim>\<open>await axios(config)\<close>: a response, or a rejection with an error.\<close>

datatype axios_outcome = Resolved http_response | Rejected js_error

text \<open>A response that the gateway has sent to its client: status code and JSON body.\<close>

record gateway_response =
  res_status :: int
  res_body :: json

text \<open>\<^verbatim>\<open>req.body && Object.keys(req.body).length > 0\<close>\<close>

fun has_keys :: "json option \<Rightarrow> bool" where
  "has_keys (Some (JObj kvs)) = (length kvs > 0)"
| "has_keys (Some (JArr xs)) = (length xs > 0)"
| "has_keys (Some (JStr s)) = (length s > 0)"
| "has_keys _ = False"

definition proxy_config :: "request \<Rightarrow> string \<Rightarrow> axios_config" where
  "proxy_config req targetUrl =
     \<lparr> cfg_method = req_method req,
       cfg_url = targetUrl,
       cfg_headers =
         AList.update ''host'' None (map (\<lambda>(k, v). (k, Some v)) (req_headers req)),
       cfg_timeout = 10000,
       cfg_data = (if has_keys (req_body req) then req_body req else None) \<rparr>"

text \<open>
  \<^verbatim>\<open>res.status(s).json(body)\<close>: the status code is set and the body is sent. Node
  refuses to write a status code outside 100..999: sending then throws a RangeError with
  the code \<^verbatim>\<open>ERR_HTTP_INVALID_STATUS_CODE\<close> (its message names the status) and nothing
  has been sent to the client.
\<close>

definition status_json :: "int \<Rightarrow> json \<Rightarrow> js_error + gateway_response" where
  "status_json s body =
     (if 100 \<le> s \<and> s \<le> 999 then Inr \<lparr> res_status = s, res_body = body \<rparr>
      else Inl \<lparr> message = ''Invalid status code'',
                 code = Some ''ERR_HTTP_INVALID_STATUS_CODE'', response = None \<rparr>)"

text \<open>The \<^verbatim>\<open>catch\<close> block of \<^verbatim>\<open>proxyRequest\<close>. Nothing guards it: an error raised
  while it sends its answer (\<open>Inl\<close>) leaves \<^verbatim>\<open>proxyRequest\<close>.\<close>

definition proxy_catch :: "string \<Rightarrow> js_error \<Rightarrow> js_error + gateway_response" where
  "proxy_catch serviceName error =
     (if code error = Some ''ECONNREFUSED'' then
        status_json 503
          (JObj [(''error'', JStr ''Service unavailable''),
            (''message'', JStr (serviceName @ '' service is not available''))])
      else if code error = Some ''ECONNABORTED'' then
        status_json 504
          (JObj [(''error'', JStr ''Gateway timeout''),
            (''message'', JStr (serviceName @ '' service timed out''))])
      else
        (case response error of
           Some r \<Rightarrow> status_json (resp_status r) (resp_data r)
         | None \<Rightarrow>
             status_json 500
               (JObj [(''error'', JStr ''Internal gateway error''),
                 (''message'', JStr ''Error communicating with service'')])))"

text \<open>
  \<^verbatim>\<open>proxyRequest\<close>. The network is the function \<open>axios\<close> from the request that is
  sent to its outcome. The result is what the client gets, together with the list of
  outbound calls that were issued, in order: \<open>Inr\<close> the response that was sent, or
  \<open>Inl\<close> the error with which the promise of \<^verbatim>\<open>proxyRequest\<close> is rejected, no response
  having been sent. Everything in the \<^verbatim>\<open>try\<close> block that raises is received by the
  \<^verbatim>\<open>catch\<close> block: the error of \<^verbatim>\<open>getHealthyInstance\<close>, the TypeError of reading
  \<^verbatim>\<open>url\<close> of an instance that is \<^verbatim>\<open>undefined\<close>, the rejection of the outbound call,
  and the error of forwarding a response whose status Node refuses.
\<close>

definition proxyRequest ::
  "registry \<Rightarrow> real \<Rightarrow> (axios_config \<Rightarrow> axios_outcome) \<Rightarrow> request \<Rightarrow> string \<Rightarrow> string
     \<Rightarrow> (js_error + gateway_response) \<times> axios_config list" where
  "proxyRequest reg random axios req serviceName path =
     (case getHealthyInstance reg serviceName random of
        Inl error \<Rightarrow> (proxy_catch serviceName error, [])
      | Inr None \<Rightarrow>
          (proxy_catch serviceName
             (Error ''Cannot read properties of undefined (reading 'url')''), [])
      | Inr (Some serviceInstance) \<Rightarrow>
          (let targetUrl = url serviceInstance @ path;
               config = proxy_config req targetUrl
           in case axios config of
                Resolved answer \<Rightarrow>
                  (case status_json (resp_status answer) (resp_data answer) of
                     Inr sent \<Rightarrow> (Inr sent, [config])
                   | Inl error \<Rightarrow> (proxy_catch serviceName error, [config]))
              | Rejected error \<Rightarrow> (proxy_catch serviceName error, [config])))"

section \<open>Properties of the circuit breaker\<close>

subsection \<open>Auxiliary facts\<close>

lemma always_failsD:
  assumes "always_fails f"
  obtains e w' where "f args w = (Inl e, w')"
proof -
  from assms have "isl (fst (f args w))" by (simp add: always_fails_def)
  then show thesis by (cases "f args w"; cases "fst (f args w)") (auto intro: that)
qed

lemma recordFailure_fields:
  "threshold (recordFailure w b) = threshold b"
  "resetTimeout (recordFailure w b) = resetTimeout b"
  "timeout (recordFailure w b) = timeout b"
  "failures (recordFailure w b) = failures b + 1"
  by (simp_all add: recordFailure_def Let_def)

lemma recordFailure_below:
  "failures b + 1 < threshold b \<Longrightarrow> recordFailure w b = b\<lparr>failures := failures b + 1\<rparr>"
  by (simp add: recordFailure_def Let_def)

lemma recordFailure_reached:
  "threshold b \<le> failures b + 1 \<Longrightarrow>
     recordFailure w b =
       b\<lparr>failures := failures b + 1, state := OPEN, nextAttempt := clock w + resetTimeout b\<rparr>"
  by (simp add: recordFailure_def Let_def)

lemma call_not_open:
  "state b \<noteq> OPEN \<Longrightarrow> call b f args w = call_attempt b f args w"
  by (simp add: call_def call_gate_def)

lemma call_attempt_failure:
  "f args w = (Inl e, w') \<Longrightarrow>
     call_attempt b f args w = (Inl (Rethrown e), recordFailure w' b, w')"
  by (simp add: call_attempt_def)

lemma call_attempt_success:
  "f args w = (Inr v, w') \<Longrightarrow> call_attempt b f args w = (Inr v, reset b, w')"
  by (simp add: call_attempt_def)

lemma call_attempt_env: "snd (snd (call_attempt b f args w)) = snd (f args w)"
  by (simp add: call_attempt_def split: prod.splits sum.splits)

lemma call_gate_settled:
  assumes "state b \<noteq> HALF_OPEN" and "state b = OPEN \<longrightarrow> threshold b \<le> failures b"
    and "call_gate b w = Inr bh"
  shows "state bh \<noteq> CLOSED \<longrightarrow> threshold bh \<le> failures bh"
  using assms by (cases "state b") (auto simp: call_gate_def split: if_splits)

lemma call_settled:
  assumes "state b \<noteq> HALF_OPEN" and "state b = OPEN \<longrightarrow> threshold b \<le> failures b"
    and "call b f args w = (r, b', w')"
  shows "state b' \<noteq> HALF_OPEN \<and> (state b' = OPEN \<longrightarrow> threshold b' \<le> failures b')"
  using assms
  by (cases "state b")
     (auto simp: call_def call_gate_def call_attempt_def reset_def recordFailure_def Let_def
           split: if_splits prod.splits sum.splits)

lemma run_settled:
  assumes "state b \<noteq> HALF_OPEN" and "state b = OPEN \<longrightarrow> threshold b \<le> failures b"
    and "run b ss w = (b', w')"
  shows "state b' \<noteq> HALF_OPEN \<and> (state b' = OPEN \<longrightarrow> threshold b' \<le> failures b')"
  using assms
proof (induction ss arbitrary: b w)
  case Nil
  then show ?case by simp
next
  case (Cons s ss)
  show ?case
  proof (cases s)
    case (Call func args)
    obtain r b1 w1 where c: "call b func args w = (r, b1, w1)"
      by (cases "call b func args w")
    from call_settled[OF Cons.prems(1,2) c]
    have "state b1 \<noteq> HALF_OPEN" and "state b1 = OPEN \<longrightarrow> threshold b1 \<le> failures b1"
      by simp_all
    moreover from Cons.prems(3) Call c have "run b1 ss w1 = (b', w')" by simp
    ultimately show ?thesis by (rule Cons.IH)
  next
    case (Elapse g)
    with Cons.prems(3) have "run b ss (g w) = (b', w')" by simp
    with Cons.prems(1,2) show ?thesis by (rule Cons.IH)
  qed
qed

lemma CircuitBreaker_settled:
  "state (CircuitBreaker th tmo rst w) \<noteq> HALF_OPEN"
  "state (CircuitBreaker th tmo rst w) = OPEN \<longrightarrow>
     threshold (CircuitBreaker th tmo rst w) \<le> failures (CircuitBreaker th tmo rst w)"
  by (simp_all add: CircuitBreaker_def)

lemma run_failing:
  assumes "list_all always_fails fs" and "state b = CLOSED"
    and "failures b + int (length fs) < threshold b"
    and "run b (map (\<lambda>f. Call f args) fs) w = (b', w')"
  shows "b' = b\<lparr>failures := failures b + int (length fs)\<rparr>"
  using assms
proof (induction fs arbitrary: b w)
  case Nil
  then show ?case by simp
next
  case (Cons f fs)
  from Cons.prems(1) have ff: "always_fails f" and ffs: "list_all always_fails fs" by simp_all
  from ff obtain e w1 where fw: "f args w = (Inl e, w1)" by (rule always_failsD)
  have below: "failures b + 1 < threshold b" using Cons.prems(3) by simp
  let ?b1 = "b\<lparr>failures := failures b + 1\<rparr>"
  have c: "call b f args w = (Inl (Rethrown e), ?b1, w1)"
    using Cons.prems(2) fw below
    by (simp add: call_not_open call_attempt_failure recordFailure_below)
  have s1: "state ?b1 = CLOSED" using Cons.prems(2) by simp
  have lt: "failures ?b1 + int (length fs) < threshold ?b1" using Cons.prems(3) by simp
  have "run ?b1 (map (\<lambda>f. Call f args) fs) w1 = (b', w')" using Cons.prems(4) c by simp
  from Cons.IH[OF ffs s1 lt this] show ?case by (simp add: add.assoc)
qed

lemmas breaker_eval = CircuitBreaker_def call_def call_gate_def call_attempt_def
  recordFailure_def reset_def getState_def mockFn_def Error_def Let_def

subsection \<open>Opening at the threshold\<close>

text \<open>
  Claim C1. For every threshold \<open>T \<ge> 1\<close>, a breaker constructed with threshold \<open>T\<close>
  (so CLOSED, with no failure counted) that sees consecutive failing calls is still CLOSED
  after \<open>k < T\<close> of them, with \<open>k\<close> failures counted. The next failing call throws
  the error of its operation again and counts one more failure; it leaves the breaker
  CLOSED when \<open>k + 1 < T\<close>, and when it is the \<open>T\<close>-th it sets the state to OPEN and
  \<open>nextAttempt\<close> to the time at which the failure is recorded plus \<open>resetTimeout\<close>.
\<close>

theorem breaker_opens_at_threshold:
  assumes "1 \<le> T" and "list_all always_fails fs" and "always_fails f"
    and "int (length fs) < T"
    and "run (CircuitBreaker (Some T) tmo rst w0) (map (\<lambda>f. Call f args) fs) w1 = (b, w)"
    and "call b f args w = (r, b', w')"
  shows "state b = CLOSED \<and> failures b = int (length fs) \<and>
         (\<exists>e. r = Inl (Rethrown e)) \<and> failures b' = int (length fs) + 1 \<and>
         (int (length fs) + 1 < T \<longrightarrow> state b' = CLOSED) \<and>
         (int (length fs) + 1 = T \<longrightarrow>
            state b' = OPEN \<and> nextAttempt b' = clock w' + resetTimeout b')"
proof -
  let ?b0 = "CircuitBreaker (Some T) tmo rst w0"
  have init: "state ?b0 = CLOSED" "failures ?b0 = 0" "threshold ?b0 = T"
    by (simp_all add: CircuitBreaker_def)
  have "failures ?b0 + int (length fs) < threshold ?b0" using assms(4) init by simp
  from run_failing[OF assms(2) init(1) this assms(5)]
  have b: "state b = CLOSED" "failures b = int (length fs)" "threshold b = T"
    using init by simp_all
  from assms(3) obtain e w2 where fw: "f args w = (Inl e, w2)" by (rule always_failsD)
  have "call b f args w = (Inl (Rethrown e), recordFailure w2 b, w2)"
    using b(1) fw by (simp add: call_not_open call_attempt_failure)
  with assms(6)
  have r: "r = Inl (Rethrown e)" and b': "b' = recordFailure w2 b" and w': "w' = w2" by auto
  have "int (length fs) + 1 < T \<longrightarrow> state b' = CLOSED"
    using b by (simp add: b' recordFailure_below)
  moreover have "int (length fs) + 1 = T \<longrightarrow>
      state b' = OPEN \<and> nextAttempt b' = clock w' + resetTimeout b'"
    using b by (auto simp add: b' w' recordFailure_reached)
  ultimately show ?thesis using b r by (simp add: b' recordFailure_fields)
qed

theorem breaker_opens_at_threshold_witness:
  "always_fails (mockFn (Inl ''Service error'') :: (unit, unit mock_env_ext, string, string) operation) \<and>
   (let f = mockFn (Inl ''Service error'') :: (unit, unit mock_env_ext, string, string) operation;
        w0 = \<lparr>clock = 0, mockCalls = 0\<rparr>;
        (b, w) = run (CircuitBreaker (Some 2) (Some 1000) (Some 100) w0) [Call f ()] w0;
        (r, b', w') = call b f () w
    in state b = CLOSED \<and> failures b = 1 \<and> r = Inl (Rethrown ''Service error'') \<and>
       state b' = OPEN \<and> nextAttempt b' = 100)"
proof -
  let ?f = "mockFn (Inl ''Service error'') :: (unit, unit mock_env_ext, string, string) operation"
  let ?start = "\<lparr>clock = 0, mockCalls = 0\<rparr>"
  let ?b = "\<lparr>threshold = 2, timeout = 1000, resetTimeout = 100, failures = 1,
             nextAttempt = 0, state = CLOSED\<rparr>"
  let ?b' = "\<lparr>threshold = 2, timeout = 1000, resetTimeout = 100, failures = 2,
             nextAttempt = 100, state = OPEN\<rparr>"
  have f: "always_fails ?f" by (simp add: always_fails_def mockFn_def)
  then have fs: "list_all always_fails [?f]" by simp
  have r: "run (CircuitBreaker (Some 2) (Some 1000) (Some 100) ?start)
             (map (\<lambda>f. Call f ()) [?f]) ?start = (?b, \<lparr>clock = 0, mockCalls = 1\<rparr>)"
    by (simp add: breaker_eval)
  have c: "call ?b ?f () \<lparr>clock = 0, mockCalls = 1\<rparr>
             = (Inl (Rethrown ''Service error''), ?b', \<lparr>clock = 0, mockCalls = 2\<rparr>)"
    by (simp add: breaker_eval)
  have "(1::int) \<le> 2" and "int (length [?f]) < 2" by simp_all
  from breaker_opens_at_threshold[OF this(1) fs f this(2) r c] f r c
  show ?thesis by simp
qed

subsection \<open>The gate of an OPEN breaker\<close>

text \<open>
  Claim C2. Take any breaker that is OPEN when \<^verbatim>\<open>call\<close> starts. If the clock is strictly
  before \<open>nextAttempt\<close>, the call raises the error with the message
  \<^verbatim>\<open>Circuit breaker is OPEN\<close>, and neither the breaker nor the environment changes,
  whatever the wrapped operation is: it is not invoked. If the clock is at or after
  \<open>nextAttempt\<close>, the gate first moves the breaker to HALF_OPEN, and the call is the one
  attempt on that breaker, which runs the operation once on the environment of the call.
  For a counting mock: its counter stays as it is in the first case and grows by exactly
  one in the second.
\<close>

theorem open_breaker_gate:
  fixes func :: "('x, 'w, 'e, 'a) operation"
  assumes "state b = OPEN"
  shows "(clock w < nextAttempt b \<longrightarrow>
            call b func args w = (Inl (Raised (Error ''Circuit breaker is OPEN'')), b, w)) \<and>
         (nextAttempt b \<le> clock w \<longrightarrow>
            call_gate b w = (Inr (b\<lparr>state := HALF_OPEN\<rparr>) :: 'e raised + breaker) \<and>
            call b func args w = call_attempt (b\<lparr>state := HALF_OPEN\<rparr>) func args w \<and>
            snd (snd (call b func args w)) = snd (func args w)) \<and>
         mockCalls (snd (snd (call b (mockFn outcome) margs m))) =
           (if clock m < nextAttempt b then mockCalls m else mockCalls m + 1)"
proof -
  have early: "clock w < nextAttempt b \<longrightarrow>
      call b func args w = (Inl (Raised (Error ''Circuit breaker is OPEN'')), b, w)"
    using assms by (simp add: call_def call_gate_def)
  have gate: "nextAttempt b \<le> clock w \<longrightarrow>
      call_gate b w = (Inr (b\<lparr>state := HALF_OPEN\<rparr>) :: 'e raised + breaker)"
    using assms by (simp add: call_gate_def)
  have probe: "nextAttempt b \<le> clock w \<longrightarrow>
      call b func args w = call_attempt (b\<lparr>state := HALF_OPEN\<rparr>) func args w"
    using assms by (simp add: call_def call_gate_def)
  have once: "nextAttempt b \<le> clock w \<longrightarrow> snd (snd (call b func args w)) = snd (func args w)"
    using probe by (simp add: call_attempt_env)
  have mock: "mockCalls (snd (snd (call b (mockFn outcome) margs m))) =
      (if clock m < nextAttempt b then mockCalls m else mockCalls m + 1)"
    using assms
    by (cases outcome) (simp_all add: call_def call_gate_def call_attempt_def mockFn_def)
  from early gate probe once mock show ?thesis by blast
qed

theorem open_breaker_gate_witness:
  "(let b = \<lparr>threshold = 2, timeout = 1000, resetTimeout = 100, failures = 2,
              nextAttempt = 100, state = OPEN\<rparr>;
        f = mockFn (Inr ''success'') :: (unit, unit mock_env_ext, string, string) operation
    in state b = OPEN \<and>
       call b f () \<lparr>clock = 50, mockCalls = 0\<rparr>
         = (Inl (Raised (Error ''Circuit breaker is OPEN'')), b, \<lparr>clock = 50, mockCalls = 0\<rparr>) \<and>
       call b f () \<lparr>clock = 150, mockCalls = 0\<rparr>
         = (Inr ''success'', b\<lparr>failures := 0, state := CLOSED\<rparr>, \<lparr>clock = 150, mockCalls = 1\<rparr>))"
proof -
  let ?b = "\<lparr>threshold = 2, timeout = 1000, resetTimeout = 100, failures = 2,
              nextAttempt = 100, state = OPEN\<rparr>"
  let ?f = "mockFn (Inr ''success'') :: (unit, unit mock_env_ext, string, string) operation"
  have o: "state ?b = OPEN" by simp
  from open_breaker_gate[OF o, of "\<lparr>clock = 50, mockCalls = 0\<rparr>" ?f "()"
         "Inr ''success'' :: string + string" "()" "\<lparr>clock = 50, mockCalls = 0\<rparr>"]
       open_breaker_gate[OF o, of "\<lparr>clock = 150, mockCalls = 0\<rparr>" ?f "()"
         "Inr ''success'' :: string + string" "()" "\<lparr>clock = 150, mockCalls = 0\<rparr>"]
  show ?thesis by (simp add: call_attempt_def mockFn_def reset_def Let_def)
qed

subsection \<open>The probe in HALF_OPEN\<close>

text \<open>
  Claim C3. Take a breaker as a sequential use leaves it, and a call whose gate puts it
  into HALF_OPEN. If the wrapped operation succeeds, the call returns its result and the
  breaker is CLOSED with no failure counted. If the operation fails, the call raises the
  error of the operation again, the failure count is one higher, and the breaker is OPEN
  with \<open>nextAttempt\<close> set to the clock after the operation plus \<open>resetTimeout\<close>.
\<close>

theorem half_open_probe:
  fixes func :: "('x, 'w, 'e, 'a) operation"
  assumes "run (CircuitBreaker th tmo rst w0) ss w1 = (b, w)"
    and "call_gate b w = (Inr bh :: 'e raised + breaker)" and "state bh = HALF_OPEN"
  shows "(\<forall>result w'. func args w = (Inr result, w') \<longrightarrow>
            call b func args w = (Inr result, bh\<lparr>failures := 0, state := CLOSED\<rparr>, w')) \<and>
         (\<forall>error w'. func args w = (Inl error, w') \<longrightarrow>
            call b func args w =
              (Inl (Rethrown error),
               bh\<lparr>failures := failures bh + 1, state := OPEN,
                  nextAttempt := clock w' + resetTimeout bh\<rparr>, w'))"
proof -
  from run_settled[OF CircuitBreaker_settled assms(1)]
  have b: "state b \<noteq> HALF_OPEN" "state b = OPEN \<longrightarrow> threshold b \<le> failures b" by simp_all
  from assms(2,3) b(1) have gate: "state b = OPEN" "bh = b\<lparr>state := HALF_OPEN\<rparr>"
    by (auto simp: call_gate_def split: if_splits)
  with b(2) have reach: "threshold bh \<le> failures bh + 1" by simp
  from assms(2,3) b(1) have c: "call b func args w = call_attempt bh func args w"
    by (auto simp: call_def call_gate_def split: if_splits)
  show ?thesis
    unfolding c using reach
    by (simp add: call_attempt_success call_attempt_failure reset_def recordFailure_reached)
qed

theorem half_open_probe_witness:
  "(let fail = mockFn (Inl ''Service error'') :: (unit, unit mock_env_ext, string, string) operation;
        succeed = mockFn (Inr ''success'') :: (unit, unit mock_env_ext, string, string) operation;
        w0 = \<lparr>clock = 0, mockCalls = 0\<rparr>;
        (b, w) = run (CircuitBreaker (Some 2) (Some 1000) (Some 100) w0)
                   [Call fail (), Call fail (), Elapse (\<lambda>w. w\<lparr>clock := clock w + 150\<rparr>)] w0;
        bh = b\<lparr>state := HALF_OPEN\<rparr>
    in call_gate b w = (Inr bh :: string raised + breaker) \<and>
       call b succeed () w
         = (Inr ''success'', bh\<lparr>failures := 0, state := CLOSED\<rparr>, w\<lparr>mockCalls := 3\<rparr>) \<and>
       call b fail () w
         = (Inl (Rethrown ''Service error''),
            bh\<lparr>failures := 3, state := OPEN, nextAttempt := 250\<rparr>, w\<lparr>mockCalls := 3\<rparr>))"
proof -
  let ?fail = "mockFn (Inl ''Service error'') :: (unit, unit mock_env_ext, string, string) operation"
  let ?succeed = "mockFn (Inr ''success'') :: (unit, unit mock_env_ext, string, string) operation"
  let ?start = "\<lparr>clock = 0, mockCalls = 0\<rparr>"
  let ?b = "\<lparr>threshold = 2, timeout = 1000, resetTimeout = 100, failures = 2,
              nextAttempt = 100, state = OPEN\<rparr>"
  let ?w = "\<lparr>clock = 150, mockCalls = 2\<rparr>"
  have r: "run (CircuitBreaker (Some 2) (Some 1000) (Some 100) ?start)
             [Call ?fail (), Call ?fail (), Elapse (\<lambda>w. w\<lparr>clock := clock w + 150\<rparr>)] ?start
           = (?b, ?w)"
    by (simp add: breaker_eval)
  have g: "call_gate ?b ?w = (Inr (?b\<lparr>state := HALF_OPEN\<rparr>) :: string raised + breaker)"
    by (simp add: call_gate_def)
  have h: "state (?b\<lparr>state := HALF_OPEN\<rparr>) = HALF_OPEN" by simp
  from half_open_probe[OF r g h, of ?succeed "()"] half_open_probe[OF r g h, of ?fail "()"] r g
  show ?thesis by (simp add: mockFn_def)
qed

subsection \<open>HALF_OPEN is never a resting state\<close>

text \<open>
  Claim C10. After any sequential use of a constructed breaker (calls that are each
  completed before the next step starts, with anything happening to the environment in
  between), \<^verbatim>\<open>getState\<close> does not return HALF_OPEN, and an OPEN breaker has counted at
  least \<open>threshold\<close> failures. The same bound holds in the HALF_OPEN state that the gate
  of a further call enters, so a failure recorded there opens the breaker again; and
  after that further call has completed the state is CLOSED or OPEN.
\<close>

theorem half_open_is_transient:
  fixes func :: "('x, 'w, 'e, 'a) operation"
  assumes "run (CircuitBreaker th tmo rst w0) ss w1 = (b, w)"
  shows "getState b \<noteq> HALF_OPEN \<and>
         (state b = OPEN \<longrightarrow> threshold b \<le> failures b) \<and>
         (\<forall>bh. call_gate b w2 = (Inr bh :: 'e raised + breaker) \<and> state bh = HALF_OPEN \<longrightarrow>
            threshold bh \<le> failures bh \<and> state (recordFailure w3 bh) = OPEN) \<and>
         (getState (fst (snd (call b func args w2))) = CLOSED \<or>
          getState (fst (snd (call b func args w2))) = OPEN)"
proof -
  from run_settled[OF CircuitBreaker_settled assms]
  have b: "state b \<noteq> HALF_OPEN" "state b = OPEN \<longrightarrow> threshold b \<le> failures b" by simp_all
  have probe: "\<forall>bh. call_gate b w2 = (Inr bh :: 'e raised + breaker) \<and> state bh = HALF_OPEN \<longrightarrow>
      threshold bh \<le> failures bh \<and> state (recordFailure w3 bh) = OPEN"
  proof (intro allI impI, elim conjE)
    fix bh assume g: "call_gate b w2 = (Inr bh :: 'e raised + breaker)" and h: "state bh = HALF_OPEN"
    from call_gate_settled[OF b g] h have t: "threshold bh \<le> failures bh" by simp
    then have "threshold bh \<le> failures bh + 1" by simp
    then have "state (recordFailure w3 bh) = OPEN" by (simp add: recordFailure_reached)
    with t show "threshold bh \<le> failures bh \<and> state (recordFailure w3 bh) = OPEN" ..
  qed
  obtain r b' w' where c: "call b func args w2 = (r, b', w')"
    by (cases "call b func args w2")
  from call_settled[OF b c] have "state b' \<noteq> HALF_OPEN" ..
  then have "state b' = CLOSED \<or> state b' = OPEN" by (cases "state b'") simp_all
  with c b probe show ?thesis by (simp add: getState_def)
qed

theorem half_open_is_transient_witness:
  "(let fail = mockFn (Inl ''Service error'') :: (unit, unit mock_env_ext, string, string) operation;
        w0 = \<lparr>clock = 0, mockCalls = 0\<rparr>;
        (b, w) = run (CircuitBreaker (Some 1) None None w0)
                   [Call fail (), Elapse (\<lambda>w. w\<lparr>clock := 30000\<rparr>), Call fail ()] w0
    in getState b = OPEN \<and> failures b = 2 \<and> threshold b = 1 \<and> nextAttempt b = 60000 \<and>
       getState (fst (snd (call b fail () (w\<lparr>clock := 60000\<rparr>)))) = OPEN)"
proof -
  let ?fail = "mockFn (Inl ''Service error'') :: (unit, unit mock_env_ext, string, string) operation"
  let ?start = "\<lparr>clock = 0, mockCalls = 0\<rparr>"
  let ?b = "\<lparr>threshold = 1, timeout = 60000, resetTimeout = 30000, failures = 2,
              nextAttempt = 60000, state = OPEN\<rparr>"
  let ?w = "\<lparr>clock = 30000, mockCalls = 2\<rparr>"
  have r: "run (CircuitBreaker (Some 1) None None ?start)
             [Call ?fail (), Elapse (\<lambda>w. w\<lparr>clock := 30000\<rparr>), Call ?fail ()] ?start = (?b, ?w)"
    by (simp add: breaker_eval)
  from half_open_is_transient[OF r, of "?w\<lparr>clock := 60000\<rparr>" _ ?fail "()"] r
  show ?thesis by (simp add: breaker_eval)
qed

section \<open>Properties of the service registry\<close>

subsection \<open>Auxiliary facts\<close>

lemma find_first_Some:
  "find_first P xs = Some k \<longleftrightarrow> k < length xs \<and> P (xs ! k) \<and> (\<forall>j<k. \<not> P (xs ! j))"
proof (induction xs arbitrary: k)
  case Nil
  then show ?case by simp
next
  case (Cons x xs)
  show ?case
  proof (cases "P x")
    case True
    then show ?thesis by (cases k) auto
  next
    case False
    show ?thesis
    proof (cases k)
      case 0
      with False show ?thesis by simp
    next
      case (Suc k')
      have "(\<forall>j<Suc k'. \<not> P ((x # xs) ! j)) \<longleftrightarrow> (\<forall>j<k'. \<not> P (xs ! j))"
        using False by (auto simp: less_Suc_eq_0_disj)
      with False Suc Cons.IH[of k'] show ?thesis by auto
    qed
  qed
qed

lemma find_first_None: "find_first P xs = None \<longleftrightarrow> (\<forall>x\<in>set xs. \<not> P x)"
  by (induction xs) auto

lemma filter_mark_first:
  "find_first (\<lambda>x. f x = a) xs = Some k \<Longrightarrow> distinct (map f xs) \<Longrightarrow> \<not> Q u \<Longrightarrow>
     filter Q (xs[k := u]) = filter (\<lambda>x. Q x \<and> f x \<noteq> a) xs"
proof (induction xs arbitrary: k)
  case Nil
  then show ?case by simp
next
  case (Cons x xs)
  show ?case
  proof (cases "f x = a")
    case True
    with Cons.prems(1) have k: "k = 0" by simp
    from Cons.prems(2) have "f x \<notin> f ` set xs" by simp
    with True have "\<forall>y\<in>set xs. f y \<noteq> a" by (metis imageI)
    then have "filter (\<lambda>x. Q x \<and> f x \<noteq> a) xs = filter Q xs" by (auto intro: filter_cong)
    with True k Cons.prems(3) show ?thesis by simp
  next
    case False
    with Cons.prems(1) obtain k' where k: "k = Suc k'"
      and f: "find_first (\<lambda>x. f x = a) xs = Some k'" by auto
    from Cons.prems(2) have "distinct (map f xs)" by simp
    from Cons.IH[OF f this Cons.prems(3)] False k show ?thesis by simp
  qed
qed

lemma filter_other_ids:
  "distinct (map f ys) \<Longrightarrow> t \<in> set ys \<Longrightarrow> filter (\<lambda>x. f x \<noteq> f t) ys = remove1 t ys"
proof (induction ys)
  case Nil
  then show ?case by simp
next
  case (Cons y ys)
  show ?case
  proof (cases "y = t")
    case True
    from Cons.prems(1) have "f y \<notin> f ` set ys" by simp
    with True have "\<forall>x\<in>set ys. f x \<noteq> f t" by (metis imageI)
    then have "filter (\<lambda>x. f x \<noteq> f t) ys = ys" by (simp add: filter_id_conv)
    with True show ?thesis by simp
  next
    case False
    with Cons.prems have "t \<in> set ys" and "distinct (map f ys)" and "f y \<noteq> f t" by auto
    with Cons.IH False show ?thesis by simp
  qed
qed

lemma subseq_into_filter:
  "subseq xs ys \<Longrightarrow> \<forall>x\<in>set xs. P x \<Longrightarrow> subseq xs (filter P ys)"
proof -
  assume s: "subseq xs ys" and p: "\<forall>x\<in>set xs. P x"
  from s have "subseq (filter P xs) (filter P ys)" by (rule subseq_filter)
  moreover from p have "filter P xs = xs" by (simp add: filter_id_conv)
  ultimately show ?thesis by simp
qed

lemma random_index:
  assumes "0 \<le> (random::real)" and "random < 1" and "0 < n"
  shows "0 \<le> \<lfloor>random * real n\<rfloor> \<and> \<lfloor>random * real n\<rfloor> < int n"
proof -
  have "0 \<le> random * real n" using assms by simp
  then have lo: "0 \<le> \<lfloor>random * real n\<rfloor>" by simp
  have "random * real n < 1 * real n" using assms by (intro mult_strict_right_mono) simp_all
  then have "random * real n < real_of_int (int n)" by simp
  then have "\<lfloor>random * real n\<rfloor> < int n" by (simp only: floor_less_iff)
  with lo show ?thesis ..
qed

lemma discover_markUnhealthy_unique:
  assumes "services reg name = Some xs" and "distinct (map inst_id xs)"
  shows "discover (markUnhealthy reg name iid) name
           = filter (\<lambda>i. inst_id i \<noteq> iid) (discover reg name)"
proof (cases "find_first (\<lambda>i. inst_id i = iid) xs")
  case None
  then have "\<forall>x\<in>set xs. inst_id x \<noteq> iid" by (simp add: find_first_None)
  then have "filter (\<lambda>i. inst_id i \<noteq> iid) (discover reg name) = discover reg name"
    using assms(1) by (auto simp: discover_def instances_of_def intro: filter_cong)
  moreover from None assms(1) have "markUnhealthy reg name iid = reg"
    by (simp add: markUnhealthy_def)
  ultimately show ?thesis by simp
next
  case (Some k)
  let ?u = "(xs ! k)\<lparr>status := ''unhealthy''\<rparr>"
  have "\<not> status ?u = ''healthy''" by simp
  with Some assms(2)
  have "filter (\<lambda>i. status i = ''healthy'') (xs[k := ?u])
          = filter (\<lambda>i. status i = ''healthy'' \<and> inst_id i \<noteq> iid) xs"
    by (rule filter_mark_first[where f = inst_id and a = iid
          and Q = "\<lambda>i. status i = ''healthy''" and u = ?u])
  moreover from Some assms(1)
  have "instances_of (markUnhealthy reg name iid) name = xs[k := ?u]"
    by (simp add: markUnhealthy_def instances_of_def)
  ultimately show ?thesis
    using assms(1) by (simp add: discover_def instances_of_def)
qed

lemmas registry_eval = ServiceRegistry_def register_def instances_of_def discover_def
  markUnhealthy_def getHealthyInstance_def js_index_def Error_def Let_def

subsection \<open>Registration\<close>

text \<open>
  Claim C9. \<^verbatim>\<open>register\<close> changes the registry at the given name only: the array of the
  name (the empty one when the name was absent) gets, at its end, the given instance with
  \<open>status\<close> set to \<^verbatim>\<open>healthy\<close> and \<open>registeredAt\<close> set to the clock; the entries that
  were there stay where they were, and the length grows by exactly one. Nothing is
  checked for uniqueness: registering the same instance twice leaves two entries with
  the same id.
\<close>

theorem register_appends:
  "services (register reg name inst w) =
     (services reg)(name \<mapsto>
        instances_of reg name @ [inst\<lparr>registeredAt := clock w, status := ''healthy''\<rparr>]) \<and>
   instances_of (register reg name inst w) name =
     instances_of reg name @ [inst\<lparr>registeredAt := clock w, status := ''healthy''\<rparr>] \<and>
   (services reg name = None \<longrightarrow>
      services (register reg name inst w) name =
        Some [inst\<lparr>registeredAt := clock w, status := ''healthy''\<rparr>]) \<and>
   (\<forall>other. other \<noteq> name \<longrightarrow>
      services (register reg name inst w) other = services reg other) \<and>
   (\<forall>k<length (instances_of reg name).
      instances_of (register reg name inst w) name ! k = instances_of reg name ! k) \<and>
   length (instances_of (register reg name inst w) name) = length (instances_of reg name) + 1 \<and>
   instances_of (register (register reg name inst w) name inst w') name =
     instances_of reg name @
       [inst\<lparr>registeredAt := clock w, status := ''healthy''\<rparr>,
        inst\<lparr>registeredAt := clock w', status := ''healthy''\<rparr>]"
  by (simp add: register_def instances_of_def nth_append)

theorem register_appends_witness:
  "(let a1 = \<lparr>inst_id = ''a-1'', url = ''http://localhost:3001'', version = ''1.0.0'',
               registeredAt = 0, status = []\<rparr>;
        reg = register (register ServiceRegistry ''svc'' a1 \<lparr>clock = 1\<rparr>) ''svc'' a1
                \<lparr>clock = 2\<rparr>
    in services ServiceRegistry ''svc'' = None \<and>
       instances_of reg ''svc''
         = [a1\<lparr>registeredAt := 1, status := ''healthy''\<rparr>,
            a1\<lparr>registeredAt := 2, status := ''healthy''\<rparr>] \<and>
       map inst_id (instances_of reg ''svc'') = [''a-1'', ''a-1''] \<and>
       length (instances_of reg ''svc'') = 2 \<and>
       services reg ''other'' = None)"
  using register_appends[of ServiceRegistry "''svc''"
      "\<lparr>inst_id = ''a-1'', url = ''http://localhost:3001'', version = ''1.0.0'',
         registeredAt = 0, status = []\<rparr>" "\<lparr>clock = 1\<rparr>" "\<lparr>clock = 2\<rparr>"]
  by (simp add: Let_def ServiceRegistry_def instances_of_def register_def)

subsection \<open>Discovery\<close>

text \<open>
  Claim C7. \<^verbatim>\<open>discover\<close> returns the stored instances of the name whose status is
  \<^verbatim>\<open>healthy\<close>, in stored order: it is a subsequence of the stored array, every member
  of it is healthy (so none is \<^verbatim>\<open>unhealthy\<close>), every healthy stored instance is in it,
  and every subsequence of the stored array made of healthy instances is a subsequence of
  it. For an unknown name it is empty. The function has no failing branch: it returns a
  list for every registry and every name.
\<close>

theorem discover_healthy_subsequence:
  "discover reg name = filter (\<lambda>i. status i = ''healthy'') (instances_of reg name) \<and>
   subseq (discover reg name) (instances_of reg name) \<and>
   (\<forall>i\<in>set (discover reg name). status i = ''healthy'' \<and> status i \<noteq> ''unhealthy'') \<and>
   (\<forall>i\<in>set (instances_of reg name). status i = ''healthy'' \<longrightarrow> i \<in> set (discover reg name)) \<and>
   (\<forall>xs. subseq xs (instances_of reg name) \<and> (\<forall>i\<in>set xs. status i = ''healthy'') \<longrightarrow>
      subseq xs (discover reg name)) \<and>
   (services reg name = None \<longrightarrow> discover reg name = [])"
proof -
  have d: "discover reg name = filter (\<lambda>i. status i = ''healthy'') (instances_of reg name)"
    by (simp add: discover_def)
  have "\<forall>xs. subseq xs (instances_of reg name) \<and> (\<forall>i\<in>set xs. status i = ''healthy'') \<longrightarrow>
      subseq xs (discover reg name)"
    unfolding d by (blast intro: subseq_into_filter)
  moreover have "services reg name = None \<longrightarrow> discover reg name = []"
    by (simp add: d instances_of_def)
  ultimately show ?thesis unfolding d by auto
qed

theorem discover_healthy_subsequence_witness:
  "(let a1 = \<lparr>inst_id = ''a-1'', url = ''http://localhost:3001'', version = ''1.0.0'',
               registeredAt = 0, status = []\<rparr>;
        a2 = \<lparr>inst_id = ''a-2'', url = ''http://localhost:3002'', version = ''1.0.0'',
               registeredAt = 0, status = []\<rparr>;
        reg = markUnhealthy
                (register (register ServiceRegistry ''svc'' a1 \<lparr>clock = 1\<rparr>) ''svc'' a2
                   \<lparr>clock = 2\<rparr>) ''svc'' ''a-1''
    in instances_of reg ''svc''
         = [a1\<lparr>registeredAt := 1, status := ''unhealthy''\<rparr>,
            a2\<lparr>registeredAt := 2, status := ''healthy''\<rparr>] \<and>
       discover reg ''svc'' = [a2\<lparr>registeredAt := 2, status := ''healthy''\<rparr>] \<and>
       subseq (discover reg ''svc'') (instances_of reg ''svc'') \<and>
       discover reg ''ghost'' = [])"
  using discover_healthy_subsequence[of
      "markUnhealthy
         (register (register ServiceRegistry ''svc''
              \<lparr>inst_id = ''a-1'', url = ''http://localhost:3001'', version = ''1.0.0'',
                 registeredAt = 0, status = []\<rparr> \<lparr>clock = 1\<rparr>) ''svc''
            \<lparr>inst_id = ''a-2'', url = ''http://localhost:3002'', version = ''1.0.0'',
               registeredAt = 0, status = []\<rparr> \<lparr>clock = 2\<rparr>) ''svc'' ''a-1''" "''svc''"]
  by (simp add: registry_eval)

subsection \<open>Choosing a healthy instance\<close>

text \<open>
  Claim C6. \<^verbatim>\<open>getHealthyInstance\<close> raises an error exactly when \<^verbatim>\<open>discover\<close> finds
  nothing for the name, and the message of that error is
  \<^verbatim>\<open>No healthy instances found for service: \<close> followed by the name. Otherwise, for a
  random number from 0 (included) to 1 (excluded), it returns a member of what
  \<^verbatim>\<open>discover\<close> finds: the one at the index that is the floor of the random number
  times the length.
\<close>

theorem getHealthyInstance_result:
  "(discover reg name = [] \<longrightarrow>
      getHealthyInstance reg name random =
        Inl (Error (''No healthy instances found for service: '' @ name))) \<and>
   ((\<exists>e. getHealthyInstance reg name random = Inl e) \<longleftrightarrow> discover reg name = []) \<and>
   (discover reg name \<noteq> [] \<and> 0 \<le> random \<and> random < 1 \<longrightarrow>
      (\<exists>i\<in>set (discover reg name). getHealthyInstance reg name random = Inr (Some i)) \<and>
      nat \<lfloor>random * real (length (discover reg name))\<rfloor> < length (discover reg name) \<and>
      getHealthyInstance reg name random =
        Inr (Some (discover reg name ! nat \<lfloor>random * real (length (discover reg name))\<rfloor>)))"
proof -
  let ?d = "discover reg name"
  let ?k = "\<lfloor>random * real (length ?d)\<rfloor>"
  have none: "?d = [] \<longrightarrow> getHealthyInstance reg name random =
      Inl (Error (''No healthy instances found for service: '' @ name))"
    by (simp add: getHealthyInstance_def)
  have iff: "(\<exists>e. getHealthyInstance reg name random = Inl e) \<longleftrightarrow> ?d = []"
    by (simp add: getHealthyInstance_def Let_def)
  have some: "?d \<noteq> [] \<and> 0 \<le> random \<and> random < 1 \<longrightarrow>
      (\<exists>i\<in>set ?d. getHealthyInstance reg name random = Inr (Some i)) \<and>
      nat ?k < length ?d \<and> getHealthyInstance reg name random = Inr (Some (?d ! nat ?k))"
  proof (intro impI, elim conjE)
    assume ne: "?d \<noteq> []" and r: "0 \<le> random" "random < 1"
    then have n: "0 < length ?d" by simp
    from random_index[OF r n] have k: "0 \<le> ?k" "?k < int (length ?d)" by simp_all
    then have lt: "nat ?k < length ?d" by linarith
    have g: "getHealthyInstance reg name random = Inr (Some (?d ! nat ?k))"
      using ne k by (simp add: getHealthyInstance_def js_index_def Let_def)
    from lt have "?d ! nat ?k \<in> set ?d" by (rule nth_mem)
    with g lt show "(\<exists>i\<in>set ?d. getHealthyInstance reg name random = Inr (Some i)) \<and>
      nat ?k < length ?d \<and> getHealthyInstance reg name random = Inr (Some (?d ! nat ?k))"
      by blast
  qed
  from none iff some show ?thesis by blast
qed

theorem getHealthyInstance_result_witness:
  "(let a1 = \<lparr>inst_id = ''a-1'', url = ''http://localhost:3001'', version = ''1.0.0'',
               registeredAt = 0, status = []\<rparr>;
        a2 = \<lparr>inst_id = ''a-2'', url = ''http://localhost:3002'', version = ''1.0.0'',
               registeredAt = 0, status = []\<rparr>;
        reg = register (register ServiceRegistry ''svc'' a1 \<lparr>clock = 1\<rparr>) ''svc'' a2
                \<lparr>clock = 2\<rparr>
    in discover reg ''svc''
         = [a1\<lparr>registeredAt := 1, status := ''healthy''\<rparr>,
            a2\<lparr>registeredAt := 2, status := ''healthy''\<rparr>] \<and>
       getHealthyInstance reg ''svc'' (1 / 2)
         = Inr (Some (a2\<lparr>registeredAt := 2, status := ''healthy''\<rparr>)) \<and>
       getHealthyInstance reg ''svc'' (1 / 4)
         = Inr (Some (a1\<lparr>registeredAt := 1, status := ''healthy''\<rparr>)) \<and>
       discover reg ''ghost'' = [] \<and>
       getHealthyInstance reg ''ghost'' (1 / 2)
         = Inl (Error ''No healthy instances found for service: ghost''))"
proof -
  let ?a1 = "\<lparr>inst_id = ''a-1'', url = ''http://localhost:3001'', version = ''1.0.0'',
               registeredAt = 0, status = []\<rparr>"
  let ?a2 = "\<lparr>inst_id = ''a-2'', url = ''http://localhost:3002'', version = ''1.0.0'',
               registeredAt = 0, status = []\<rparr>"
  let ?reg = "register (register ServiceRegistry ''svc'' ?a1 \<lparr>clock = 1\<rparr>) ''svc'' ?a2
                \<lparr>clock = 2\<rparr>"
  have d: "discover ?reg ''svc''
         = [?a1\<lparr>registeredAt := 1, status := ''healthy''\<rparr>,
            ?a2\<lparr>registeredAt := 2, status := ''healthy''\<rparr>]"
    by (simp add: registry_eval)
  have g: "discover ?reg ''ghost'' = []" by (simp add: registry_eval)
  from getHealthyInstance_result[of ?reg "''svc''" "1 / 2"]
       getHealthyInstance_result[of ?reg "''svc''" "1 / 4"]
       getHealthyInstance_result[of ?reg "''ghost''" "1 / 2"] d g
  show ?thesis by (simp add: Let_def)
qed

subsection \<open>Marking an instance unhealthy\<close>

text \<open>
  Claim C8. \<^verbatim>\<open>markUnhealthy\<close> sets the status of the first stored instance of the name
  whose id is the given one to \<^verbatim>\<open>unhealthy\<close> and changes nothing else in the registry.
  It leaves the registry as it is when the name is unknown or no instance of the name
  has the id, and it never touches another name. When the ids stored under the name are
  distinct and the instance with the given id was healthy, \<^verbatim>\<open>discover\<close> afterwards
  returns what it returned before with exactly that instance removed: the instance was
  in the result and is not any more, and every other one is still there, in order.
\<close>

theorem markUnhealthy_effect:
  "(\<forall>xs k. services reg name = Some xs \<and> k < length xs \<and> inst_id (xs ! k) = iid \<and>
        (\<forall>j<k. inst_id (xs ! j) \<noteq> iid) \<longrightarrow>
      markUnhealthy reg name iid =
        reg\<lparr>services := (services reg)(name \<mapsto> xs[k := (xs ! k)\<lparr>status := ''unhealthy''\<rparr>])\<rparr>) \<and>
   (services reg name = None \<longrightarrow> markUnhealthy reg name iid = reg) \<and>
   (\<forall>xs. services reg name = Some xs \<and> iid \<notin> inst_id ` set xs \<longrightarrow>
      markUnhealthy reg name iid = reg) \<and>
   (\<forall>other. other \<noteq> name \<longrightarrow>
      services (markUnhealthy reg name iid) other = services reg other \<and>
      discover (markUnhealthy reg name iid) other = discover reg other) \<and>
   (\<forall>t. distinct (map inst_id (instances_of reg name)) \<and> t \<in> set (instances_of reg name) \<and>
        inst_id t = iid \<and> status t = ''healthy'' \<longrightarrow>
      t \<in> set (discover reg name) \<and>
      discover (markUnhealthy reg name iid) name = remove1 t (discover reg name) \<and>
      t \<notin> set (discover (markUnhealthy reg name iid) name) \<and>
      (\<forall>i\<in>set (discover reg name). i \<noteq> t \<longrightarrow>
         i \<in> set (discover (markUnhealthy reg name iid) name)))"
proof -
  have first: "\<forall>xs k. services reg name = Some xs \<and> k < length xs \<and> inst_id (xs ! k) = iid \<and>
        (\<forall>j<k. inst_id (xs ! j) \<noteq> iid) \<longrightarrow>
      markUnhealthy reg name iid =
        reg\<lparr>services := (services reg)(name \<mapsto> xs[k := (xs ! k)\<lparr>status := ''unhealthy''\<rparr>])\<rparr>"
  proof (intro allI impI, elim conjE)
    fix xs k
    assume xs: "services reg name = Some xs" and "k < length xs" "inst_id (xs ! k) = iid"
      "\<forall>j<k. inst_id (xs ! j) \<noteq> iid"
    then have "find_first (\<lambda>i. inst_id i = iid) xs = Some k" by (simp add: find_first_Some)
    with xs show "markUnhealthy reg name iid =
        reg\<lparr>services := (services reg)(name \<mapsto> xs[k := (xs ! k)\<lparr>status := ''unhealthy''\<rparr>])\<rparr>"
      by (simp add: markUnhealthy_def)
  qed
  have unknown_name: "services reg name = None \<longrightarrow> markUnhealthy reg name iid = reg"
    by (simp add: markUnhealthy_def)
  have unknown_id: "\<forall>xs. services reg name = Some xs \<and> iid \<notin> inst_id ` set xs \<longrightarrow>
      markUnhealthy reg name iid = reg"
  proof (intro allI impI, elim conjE)
    fix xs assume xs: "services reg name = Some xs" and "iid \<notin> inst_id ` set xs"
    then have "find_first (\<lambda>i. inst_id i = iid) xs = None" by (auto simp: find_first_None)
    with xs show "markUnhealthy reg name iid = reg" by (simp add: markUnhealthy_def)
  qed
  have others: "\<forall>other. other \<noteq> name \<longrightarrow>
      services (markUnhealthy reg name iid) other = services reg other \<and>
      discover (markUnhealthy reg name iid) other = discover reg other"
    by (simp add: markUnhealthy_def discover_def instances_of_def split: option.splits)
  have marked: "\<forall>t. distinct (map inst_id (instances_of reg name)) \<and>
        t \<in> set (instances_of reg name) \<and> inst_id t = iid \<and> status t = ''healthy'' \<longrightarrow>
      t \<in> set (discover reg name) \<and>
      discover (markUnhealthy reg name iid) name = remove1 t (discover reg name) \<and>
      t \<notin> set (discover (markUnhealthy reg name iid) name) \<and>
      (\<forall>i\<in>set (discover reg name). i \<noteq> t \<longrightarrow>
         i \<in> set (discover (markUnhealthy reg name iid) name))"
  proof (intro allI impI, elim conjE)
    fix t
    assume d: "distinct (map inst_id (instances_of reg name))"
      and t: "t \<in> set (instances_of reg name)" "inst_id t = iid" "status t = ''healthy''"
    from t(1) obtain xs where xs: "services reg name = Some xs"
      by (cases "services reg name") (simp_all add: instances_of_def)
    with d have dx: "distinct (map inst_id xs)" by (simp add: instances_of_def)
    have mem: "t \<in> set (discover reg name)" using t by (simp add: discover_def)
    have dd: "distinct (map inst_id (discover reg name))"
      using d by (simp add: discover_def distinct_map_filter)
    have "discover (markUnhealthy reg name iid) name
            = filter (\<lambda>i. inst_id i \<noteq> inst_id t) (discover reg name)"
      using discover_markUnhealthy_unique[OF xs dx] t(2) by simp
    also have "\<dots> = remove1 t (discover reg name)" using dd mem by (rule filter_other_ids)
    finally have eq: "discover (markUnhealthy reg name iid) name = remove1 t (discover reg name)" .
    from dd have "distinct (discover reg name)" by (rule distinct_map[THEN iffD1, THEN conjunct1])
    then have rm: "set (remove1 t (discover reg name)) = set (discover reg name) - {t}"
      by (rule set_remove1_eq)
    have gone: "t \<notin> set (discover (markUnhealthy reg name iid) name)"
      unfolding eq using rm by blast
    have kept: "\<forall>i\<in>set (discover reg name). i \<noteq> t \<longrightarrow>
         i \<in> set (discover (markUnhealthy reg name iid) name)"
      unfolding eq using rm by blast
    from mem eq gone kept show "t \<in> set (discover reg name) \<and>
      discover (markUnhealthy reg name iid) name = remove1 t (discover reg name) \<and>
      t \<notin> set (discover (markUnhealthy reg name iid) name) \<and>
      (\<forall>i\<in>set (discover reg name). i \<noteq> t \<longrightarrow>
         i \<in> set (discover (markUnhealthy reg name iid) name))"
      by (intro conjI)
  qed
  show ?thesis by (intro conjI first unknown_name unknown_id others marked)
qed

theorem markUnhealthy_effect_witness:
  "(let a1 = \<lparr>inst_id = ''a-1'', url = ''http://localhost:3001'', version = ''1.0.0'',
               registeredAt = 0, status = []\<rparr>;
        a2 = \<lparr>inst_id = ''a-2'', url = ''http://localhost:3002'', version = ''1.0.0'',
               registeredAt = 0, status = []\<rparr>;
        reg = register (register ServiceRegistry ''svc'' a1 \<lparr>clock = 1\<rparr>) ''svc'' a2
                \<lparr>clock = 2\<rparr>;
        t = a1\<lparr>registeredAt := 1, status := ''healthy''\<rparr>
    in distinct (map inst_id (instances_of reg ''svc'')) \<and>
       t \<in> set (instances_of reg ''svc'') \<and>
       discover reg ''svc'' = [t, a2\<lparr>registeredAt := 2, status := ''healthy''\<rparr>] \<and>
       discover (markUnhealthy reg ''svc'' ''a-1'') ''svc''
         = [a2\<lparr>registeredAt := 2, status := ''healthy''\<rparr>] \<and>
       instances_of (markUnhealthy reg ''svc'' ''a-1'') ''svc''
         = [t\<lparr>status := ''unhealthy''\<rparr>, a2\<lparr>registeredAt := 2, status := ''healthy''\<rparr>] \<and>
       discover (markUnhealthy reg ''ghost'' ''a-1'') ''svc'' = discover reg ''svc'' \<and>
       discover (markUnhealthy reg ''svc'' ''a-9'') ''svc'' = discover reg ''svc'')"
proof -
  let ?a1 = "\<lparr>inst_id = ''a-1'', url = ''http://localhost:3001'', version = ''1.0.0'',
               registeredAt = 0, status = []\<rparr>"
  let ?a2 = "\<lparr>inst_id = ''a-2'', url = ''http://localhost:3002'', version = ''1.0.0'',
               registeredAt = 0, status = []\<rparr>"
  let ?reg = "register (register ServiceRegistry ''svc'' ?a1 \<lparr>clock = 1\<rparr>) ''svc'' ?a2
                \<lparr>clock = 2\<rparr>"
  let ?t = "?a1\<lparr>registeredAt := 1, status := ''healthy''\<rparr>"
  let ?xs = "[?t, ?a2\<lparr>registeredAt := 2, status := ''healthy''\<rparr>]"
  have i: "instances_of ?reg ''svc'' = ?xs" by (simp add: registry_eval)
  have d: "discover ?reg ''svc'' = ?xs" by (simp add: registry_eval)
  have s: "services ?reg ''svc'' = Some ?xs" by (simp add: registry_eval)
  have n: "services ?reg ''ghost'' = None" by (simp add: registry_eval)
  note m = markUnhealthy_effect[of ?reg "''svc''" "''a-1''"]
  note m1 = m[THEN conjunct1, rule_format, of ?xs 0]
  note m5 = m[THEN conjunct2, THEN conjunct2, THEN conjunct2, THEN conjunct2, rule_format, of ?t]
  note g = markUnhealthy_effect[of ?reg "''ghost''" "''a-1''", THEN conjunct2, THEN conjunct1]
  note u = markUnhealthy_effect[of ?reg "''svc''" "''a-9''", THEN conjunct2, THEN conjunct2,
      THEN conjunct1, rule_format, of ?xs]
  from m1 m5 g u i d s n show ?thesis by (simp add: Let_def instances_of_def)
qed

section \<open>Properties of the dispatcher\<close>

subsection \<open>Auxiliary facts\<close>

lemma getHealthyInstance_error:
  assumes "getHealthyInstance reg name random = Inl e"
  shows "e = Error (''No healthy instances found for service: '' @ name)"
  using assms by (simp add: getHealthyInstance_def Let_def split: if_splits)



lemma proxy_catch_plain:
  "proxy_catch name (Error msg) =
     Inr \<lparr> res_status = 500,
       res_body = JObj [(''error'', JStr ''Internal gateway error''),
         (''message'', JStr ''Error communicating with service'')] \<rparr>"
  by (simp add: proxy_catch_def Error_def status_json_def)



lemmas dispatcher_eval = proxyRequest_def proxy_catch_def proxy_config_def status_json_def

text \<open>The \<^verbatim>\<open>catch\<close> block looks at the code of an error before it looks at its
  response.\<close>

lemma proxy_catch_code_first:
  "code e = Some ''ECONNREFUSED'' \<Longrightarrow>
     proxy_catch name e = Inr \<lparr> res_status = 503,
       res_body = JObj [(''error'', JStr ''Service unavailable''),
         (''message'', JStr (name @ '' service is not available''))] \<rparr>"
  "code e = Some ''ECONNABORTED'' \<Longrightarrow>
     proxy_catch name e = Inr \<lparr> res_status = 504,
       res_body = JObj [(''error'', JStr ''Gateway timeout''),
         (''message'', JStr (name @ '' service timed out''))] \<rparr>"
  by (simp_all add: proxy_catch_def status_json_def)

subsection \<open>No healthy instance\<close>

text \<open>
  Claim C4, as the code has it. When \<^verbatim>\<open>getHealthyInstance\<close> fails for the target name,
  \<^verbatim>\<open>proxyRequest\<close> answers at once, whatever the network would do, and issues no
  outbound call. The error it catches has neither a code nor a response, so the answer
  is the one of the last branch of the \<^verbatim>\<open>catch\<close> block: status 500 with the error
  \<^verbatim>\<open>Internal gateway error\<close>.
\<close>

theorem proxyRequest_no_instance:
  assumes "getHealthyInstance reg name random = Inl e"
  shows "proxyRequest reg random axios req name path =
           (Inr \<lparr> res_status = 500,
              res_body = JObj [(''error'', JStr ''Internal gateway error''),
                (''message'', JStr ''Error communicating with service'')] \<rparr>, [])"
proof -
  from assms have "e = Error (''No healthy instances found for service: '' @ name)"
    by (rule getHealthyInstance_error)
  with assms show ?thesis by (simp add: proxyRequest_def proxy_catch_plain)
qed

theorem proxyRequest_no_instance_witness:
  "getHealthyInstance ServiceRegistry ''ghost'' (1 / 2)
     = Inl (Error ''No healthy instances found for service: ghost'') \<and>
   proxyRequest ServiceRegistry (1 / 2)
       (\<lambda>config. Resolved \<lparr>resp_status = 200, resp_data = JNull\<rparr>)
       \<lparr>req_method = ''GET'', req_headers = [], req_body = None\<rparr> ''ghost'' ''/users''
     = (Inr \<lparr> res_status = 500,
          res_body = JObj [(''error'', JStr ''Internal gateway error''),
            (''message'', JStr ''Error communicating with service'')] \<rparr>, [])"
proof -
  have g: "getHealthyInstance ServiceRegistry ''ghost'' (1 / 2)
     = Inl (Error ''No healthy instances found for service: ghost'')"
    by (simp add: registry_eval)
  from proxyRequest_no_instance[OF g] g show ?thesis by simp
qed

text \<open>
  The status is therefore not 503: for a registry without instances the claim that a
  failed lookup is answered with 503 does not hold.
\<close>

theorem proxyRequest_no_instance_counterexample:
  "\<not> (\<forall>reg random axios req name path.
        (\<exists>e. getHealthyInstance reg name random = Inl e) \<longrightarrow>
        (\<exists>answer. fst (proxyRequest reg random axios req name path) = Inr answer \<and>
           res_status answer = 503))"
proof
  assume claim: "\<forall>reg random axios req name path.
        (\<exists>e. getHealthyInstance reg name random = Inl e) \<longrightarrow>
        (\<exists>answer. fst (proxyRequest reg random axios req name path) = Inr answer \<and>
           res_status answer = 503)"
  let ?axios = "\<lambda>config :: axios_config. Resolved \<lparr>resp_status = 200, resp_data = JNull\<rparr>"
  let ?req = "\<lparr>req_method = ''GET'', req_headers = [], req_body = None\<rparr>"
  have "\<exists>e. getHealthyInstance ServiceRegistry ''ghost'' (1 / 2) = Inl e"
    by (simp add: registry_eval)
  with claim
  have "\<exists>answer. fst (proxyRequest ServiceRegistry (1 / 2) ?axios ?req ''ghost'' ''/users'')
          = Inr answer \<and> res_status answer = 503"
    by blast
  moreover
  have "fst (proxyRequest ServiceRegistry (1 / 2) ?axios ?req ''ghost'' ''/users'')
          = Inr \<lparr> res_status = 500,
              res_body = JObj [(''error'', JStr ''Internal gateway error''),
                (''message'', JStr ''Error communicating with service'')] \<rparr>"
    by (simp add: registry_eval dispatcher_eval)
  ultimately show False by auto
qed

subsection \<open>Outcomes of an outbound call\<close>




end
